theory Spec2Isabelle
  imports Main "HOL-Library.AList" "HOL-Library.Sublist"
begin

section \<open>Explorador: the lexical analyser of explorador.py\<close>

text \<open>
  The source text is a Python \<open>str\<close>. It is modelled by \<^typ>\<open>string\<close>; a \<^typ>\<open>char\<close> is
  read as the code point of the same number, so the inputs covered are the texts whose
  code points lie in 0..255.
\<close>

subsection \<open>Regular expressions of the pattern table\<close>

text \<open>
  The patterns of \<open>TOKEN_SPEC\<close> only use literals, (negated) character classes,
  concatenation, alternation, the greedy repetitions \<open>*\<close>, \<open>+\<close>, \<open>?\<close> and non-capturing
  groups. \<open>Vacio\<close> is the empty pattern.
\<close>

datatype elem = Car char | Rango char char

datatype regex =
    Vacio
  | Lit char
  | Clase "elem list"
  | NoClase "elem list"
  | Sec regex regex
  | Alt regex regex
  | Estrella regex

fun en_elem :: "elem \<Rightarrow> char \<Rightarrow> bool" where
  "en_elem (Car a) c = (c = a)"
| "en_elem (Rango a b) c = ((of_char a :: nat) \<le> of_char c \<and> (of_char c :: nat) \<le> of_char b)"

definition en_clase :: "elem list \<Rightarrow> char \<Rightarrow> bool" where
  "en_clase es c = list_ex (\<lambda>e. en_elem e c) es"

text \<open>\<open>r+\<close> is \<open>r\<close> followed by \<open>r*\<close>; \<open>r?\<close> tries \<open>r\<close> first and the empty match second.\<close>

definition Mas :: "regex \<Rightarrow> regex" where
  "Mas r = Sec r (Estrella r)"

definition Opc :: "regex \<Rightarrow> regex" where
  "Opc r = Alt r Vacio"

fun sec :: "regex list \<Rightarrow> regex" where
  "sec [] = Vacio"
| "sec [r] = r"
| "sec (r # rs) = Sec r (sec rs)"

text \<open>\<open>"|".join(...)\<close> of at least one pattern: the alternatives in the order of the list.\<close>

fun alt :: "regex list \<Rightarrow> regex" where
  "alt [] = NoClase [Rango (CHR 0x00) (CHR 0xFF)]"
| "alt [r] = r"
| "alt (r # rs) = Alt r (alt rs)"

definition literal :: "string \<Rightarrow> regex" where
  "literal s = sec (map Lit s)"

text \<open>
  The backtracking matcher of the \<open>re\<close> module, in continuation-passing style:
  \<open>casar r s k\<close> matches \<open>r\<close> at the head of \<open>s\<close> and hands the rest of the text to \<open>k\<close>;
  when \<open>k\<close> fails, the next way of matching \<open>r\<close> is tried, in the order of the engine
  (left alternative first, one more iteration of a repetition before leaving it).
  An iteration of a repetition that consumes nothing is not pursued.
\<close>

function casar :: "regex \<Rightarrow> string \<Rightarrow> (string \<Rightarrow> 'a option) \<Rightarrow> 'a option" where
  "casar Vacio s k = k s"
| "casar (Lit c) s k = (case s of [] \<Rightarrow> None | x # xs \<Rightarrow> if x = c then k xs else None)"
| "casar (Clase es) s k = (case s of [] \<Rightarrow> None | x # xs \<Rightarrow> if en_clase es x then k xs else None)"
| "casar (NoClase es) s k =
     (case s of [] \<Rightarrow> None | x # xs \<Rightarrow> if \<not> en_clase es x then k xs else None)"
| "casar (Sec a b) s k = casar a s (\<lambda>s'. casar b s' k)"
| "casar (Alt a b) s k = (case casar a s k of Some x \<Rightarrow> Some x | None \<Rightarrow> casar b s k)"
| "casar (Estrella a) s k =
     (case casar a s (\<lambda>s'. if length s' < length s then casar (Estrella a) s' k else None) of
        Some x \<Rightarrow> Some x
      | None \<Rightarrow> k s)"
  by pat_completeness auto
termination
  by (relation "measures [\<lambda>(r, s, k). size r, \<lambda>(r, s, k). length s]") auto


subsection \<open>The pattern table\<close>

text \<open>The names of the groups of the master pattern, and the two further kinds of token.\<close>

datatype tipo =
    COMENT_BLOQ | COMENT_LINEA | ESPACIO | NL | CADENA | NUM_FLOTANTE | NUM_ENTERO
  | OPERADOR | SIMBOLO | IDENT | PALABRA_CLAVE | ERROR

definition PALABRAS_CLAVE :: "string list" where
  "PALABRAS_CLAVE =
    [''ejercito'', ''global'', ''var'', ''mision'', ''severidad'', ''estricto'', ''advertencia'',
     ''revisar'', ''ejecutar'', ''confirmar'',
     ''si'', ''por'', ''defecto'', ''estrategia'', ''atacar'', ''mientras'',
     ''retirada'', ''con'', ''abortar'', ''avanzar'',
     ''afirmativo'', ''negativo'', ''nulo'',
     ''reportar'', ''recibir'', ''clasificarNumero'', ''clasificarMensaje'', ''azar'',
     ''aRangoSuperior'', ''aRangoInferior'', ''acampar'', ''calibre'', ''truncar'']"

text \<open>The operators and symbols, each the text its escaped pattern denotes.\<close>

definition MULTI_OPS :: "string list" where
  "MULTI_OPS = [''||'', ''&&'', ''=='', ''!='', ''<='', ''>='', ''+='', ''-='', ''*='', ''/='', ''%='']"

definition SINGLE_OPS :: "string list" where
  "SINGLE_OPS = [''='', ''+'', ''-'', ''*'', ''/'', ''%'', ''<'', ''>'', ''!'']"

definition PUNCT :: "string list" where
  "PUNCT = [''('', '')'', ''{'', ''}'', ''['', '']'', ''.'', '','', '':'']"

definition OPS_RE :: regex where
  "OPS_RE = alt (map literal (MULTI_OPS @ SINGLE_OPS))"

definition PUNCT_RE :: regex where
  "PUNCT_RE = alt (map literal PUNCT)"

text \<open>The control characters: \<open>\t\<close>, \<open>\n\<close>, \<open>\v\<close>, \<open>\f\<close>, \<open>\r\<close>, and the double quote.\<close>

definition c_tab :: char where "c_tab = CHR 0x09"
definition c_nl :: char where "c_nl = CHR 0x0A"
definition c_vt :: char where "c_vt = CHR 0x0B"
definition c_ff :: char where "c_ff = CHR 0x0C"
definition c_cr :: char where "c_cr = CHR 0x0D"
definition c_comilla :: char where "c_comilla = CHR 0x22"

text \<open>\<open>(?:\r?\n)\<close>, used by the line comment and by the line terminator run.\<close>

definition fin_linea :: regex where
  "fin_linea = Sec (Opc (Lit c_cr)) (Lit c_nl)"

definition digito :: regex where
  "digito = Clase [Rango (CHR ''0'') (CHR ''9'')]"

text \<open>The ten patterns, in the order of the table.\<close>

definition RE_COMENT_BLOQ :: regex where
  "RE_COMENT_BLOQ =
     sec [Lit (CHR ''/''), Lit (CHR ''*''),
          Estrella (Alt (NoClase [Car (CHR ''*'')])
                        (Sec (Lit (CHR ''*'')) (NoClase [Car (CHR ''/'')]))),
          Lit (CHR ''*''), Lit (CHR ''/'')]"

definition RE_COMENT_LINEA :: regex where
  "RE_COMENT_LINEA =
     sec [Lit (CHR ''/''), Lit (CHR ''/''), Estrella (NoClase [Car c_nl]), Opc fin_linea]"

definition RE_ESPACIO :: regex where
  "RE_ESPACIO = Mas (Clase [Car (CHR '' ''), Car c_tab, Car c_ff, Car c_vt, Car c_cr])"

definition RE_NL :: regex where
  "RE_NL = Mas fin_linea"

definition RE_CADENA :: regex where
  "RE_CADENA = sec [Lit c_comilla, Estrella (NoClase [Car c_comilla, Car c_nl]), Lit c_comilla]"

definition RE_NUM_FLOTANTE :: regex where
  "RE_NUM_FLOTANTE = sec [Mas digito, Lit (CHR ''.''), Mas digito]"

definition RE_NUM_ENTERO :: regex where
  "RE_NUM_ENTERO = Mas digito"

definition RE_IDENT :: regex where
  "RE_IDENT =
     Sec (Clase [Rango (CHR ''A'') (CHR ''Z''), Rango (CHR ''a'') (CHR ''z''), Car (CHR ''_'')])
         (Estrella (Clase [Rango (CHR ''A'') (CHR ''Z''), Rango (CHR ''a'') (CHR ''z''),
                           Rango (CHR ''0'') (CHR ''9''), Car (CHR ''_'')]))"

definition TOKEN_SPEC :: "(tipo \<times> regex) list" where
  "TOKEN_SPEC =
    [(COMENT_BLOQ, RE_COMENT_BLOQ),
     (COMENT_LINEA, RE_COMENT_LINEA),
     (ESPACIO, RE_ESPACIO),
     (NL, RE_NL),
     (CADENA, RE_CADENA),
     (NUM_FLOTANTE, RE_NUM_FLOTANTE),
     (NUM_ENTERO, RE_NUM_ENTERO),
     (OPERADOR, OPS_RE),
     (SIMBOLO, PUNCT_RE),
     (IDENT, RE_IDENT)]"

text \<open>
  One pattern tried at the head of the text: the length of its match, the first one the
  backtracking finds.
\<close>

definition casa_patron :: "regex \<Rightarrow> string \<Rightarrow> nat option" where
  "casa_patron r s = casar r s (\<lambda>s'. Some (length s - length s'))"

text \<open>
  \<open>MASTER_REGEX\<close> is the alternation of the named groups in table order: at one position
  the first group whose pattern matches gives the match, and \<open>lastgroup\<close> is its name.
\<close>

fun primera :: "(tipo \<times> regex) list \<Rightarrow> string \<Rightarrow> (tipo \<times> nat) option" where
  "primera [] s = None"
| "primera ((nombre, patron) # resto) s =
     (case casa_patron patron s of Some n \<Rightarrow> Some (nombre, n) | None \<Rightarrow> primera resto s)"

definition MASTER_RE :: "string \<Rightarrow> (tipo \<times> nat) option" where
  "MASTER_RE s = primera TOKEN_SPEC s"

subsection \<open>The scan: \<open>MASTER_RE.finditer\<close>\<close>

record coincidencia =
  inicio :: nat
  fin :: nat
  grupo :: tipo

text \<open>
  The scan of the text from a position: the master pattern is tried at the cursor; a match
  is yielded and the cursor moves to its end, no match moves the cursor one character on;
  the end of the text is the last position tried. The cursor is moved to the end of the
  match whatever its length, so the scan as written here does not return when a match is
  empty.
\<close>

partial_function (option) finditer_desde :: "string \<Rightarrow> nat \<Rightarrow> coincidencia list option" where
  "finditer_desde texto p =
     (if length texto < p then Some []
      else case MASTER_RE (drop p texto) of
             None \<Rightarrow> finditer_desde texto (p + 1)
           | Some (nombre, n) \<Rightarrow>
               Option.bind (finditer_desde texto (p + n))
                 (\<lambda>ms. Some (\<lparr>inicio = p, fin = p + n, grupo = nombre\<rparr> # ms)))"

declare finditer_desde.simps [code]

definition finditer :: "string \<Rightarrow> coincidencia list option" where
  "finditer texto = finditer_desde texto 0"

subsection \<open>Tokens and errors\<close>

datatype valor = Entero int | Texto string

record token =
  lexema :: string
  tipo :: tipo
  atributos :: "(string \<times> valor) list"

text \<open>
  \<open>ExploradorError\<close> carries the parts its message is formatted from: whether the gap is
  the one at the end of the text, the row, the column and the excerpt. \<open>TypeError\<close> is
  what the constructor of the dataclass \<open>Token\<close>, which has three fields, raises when it is
  called with five positional arguments.
\<close>

datatype error =
    ExploradorError (al_final: bool) (fila: int) (columna: int) (extracto: string)
  | TypeError

text \<open>The slice \<open>texto[a:b]\<close> for offsets that are not negative.\<close>

definition rebanada :: "string \<Rightarrow> nat \<Rightarrow> nat \<Rightarrow> string" where
  "rebanada texto a b = take (b - a) (drop a texto)"

text \<open>\<open>\s\<close> of a \<open>str\<close> pattern, on the code points 0..255.\<close>

definition es_espacio :: "char \<Rightarrow> bool" where
  "es_espacio c = ((of_char c :: nat) \<in> {9, 10, 11, 12, 13, 28, 29, 30, 31, 32, 133, 160})"

definition consume_desconocido :: "string \<Rightarrow> bool" where
  "consume_desconocido chunk =
     (if chunk = [] then True
      else if list_ex (\<lambda>c. \<not> es_espacio c) (filter (\<lambda>c. c \<noteq> c_nl) chunk) then False
      else True)"

text \<open>\<open>bad_chunk[:20].replace("\n", "\\n")\<close>\<close>

definition excerpt :: "string \<Rightarrow> string" where
  "excerpt bad_chunk =
     concat (map (\<lambda>c. if c = c_nl then [CHR 0x5C, CHR ''n''] else [c]) (take 20 bad_chunk))"

text \<open>\<open>s.rfind(c)\<close> for one character: the last index of \<open>c\<close>, or -1.\<close>

definition rfind :: "string \<Rightarrow> char \<Rightarrow> int" where
  "rfind s c =
     (if c \<in> set s then int (length s) - 1 - int (length (takeWhile (\<lambda>x. x \<noteq> c) (rev s)))
      else - 1)"

definition clasificar :: "tipo \<Rightarrow> string \<Rightarrow> tipo \<times> (string \<times> valor) list" where
  "clasificar t lx =
     (if t = IDENT then (if lx \<in> set PALABRAS_CLAVE then (PALABRA_CLAVE, []) else (IDENT, []))
      else if t = NUM_ENTERO then (NUM_ENTERO, [])
      else if t = NUM_FLOTANTE then (NUM_FLOTANTE, [])
      else if t = CADENA then (CADENA, [(''valor'', Texto (rebanada lx 1 (length lx - 1)))])
      else if t = OPERADOR then (OPERADOR, [])
      else if t = SIMBOLO then (SIMBOLO, [])
      else (t, []))"

subsection \<open>\<open>Explorador.tokenizar\<close>\<close>

record estado =
  tokens :: "token list"
  linea :: int
  linea_inicio :: int
  pos :: nat

text \<open>
  One iteration of the loop over the matches. A gap before the match that
  \<open>_consume_desconocido\<close> refuses ends the call: with \<open>ExploradorError\<close> when not
  tolerant, and with \<open>TypeError\<close> when tolerant, since the \<open>ERROR\<close> token is built there
  with five positional arguments. The local \<open>lexema\<close> of the source is \<open>lx\<close> here.
\<close>

definition paso :: "bool \<Rightarrow> bool \<Rightarrow> string \<Rightarrow> estado \<Rightarrow> coincidencia \<Rightarrow> error + estado" where
  "paso con_nuevaslineas tolerante texto e m =
     (let bad_chunk = rebanada texto (pos e) (inicio m) in
      if inicio m \<noteq> pos e \<and> \<not> consume_desconocido bad_chunk then
        (let col = int (pos e) - linea_inicio e + 1 in
         if tolerante then Inl TypeError
         else Inl (ExploradorError False (linea e) col (excerpt bad_chunk)))
      else
        (let lx = rebanada texto (inicio m) (fin m);
             tok_linea = linea e;
             tok_col = int (inicio m) - linea_inicio e + 1
         in if grupo m = NL then
              Inr (e\<lparr>tokens :=
                       (if con_nuevaslineas then
                          tokens e @ [\<lparr>lexema = lx, tipo = NL,
                                       atributos = [(''fila'', Entero tok_linea),
                                                    (''columna'', Entero tok_col)]\<rparr>]
                        else tokens e),
                     linea := linea e + int (count_list lx c_nl),
                     linea_inicio :=
                       (if rfind lx c_nl \<noteq> - 1 then int (inicio m) + rfind lx c_nl + 1
                        else linea_inicio e),
                     pos := fin m\<rparr>)
            else if grupo m \<in> {ESPACIO, COMENT_LINEA, COMENT_BLOQ} then Inr (e\<lparr>pos := fin m\<rparr>)
            else
              (case clasificar (grupo m) lx of
                 (t, attrs) \<Rightarrow>
                   Inr (e\<lparr>tokens :=
                            tokens e @
                              [\<lparr>lexema = lx, tipo = t,
                                atributos =
                                  AList.update ''columna'' (Entero tok_col)
                                    (AList.update ''fila'' (Entero tok_linea) attrs)\<rparr>],
                          pos := fin m\<rparr>))))"

fun bucle :: "bool \<Rightarrow> bool \<Rightarrow> string \<Rightarrow> estado \<Rightarrow> coincidencia list \<Rightarrow> error + estado" where
  "bucle cn tol texto e [] = Inr e"
| "bucle cn tol texto e (m # ms) =
     (case paso cn tol texto e m of Inl err \<Rightarrow> Inl err | Inr e' \<Rightarrow> bucle cn tol texto e' ms)"

text \<open>The text left after the last match.\<close>

definition cierre :: "bool \<Rightarrow> string \<Rightarrow> estado \<Rightarrow> error + token list" where
  "cierre tolerante texto e =
     (let longitud = length texto; bad_chunk = rebanada texto (pos e) longitud in
      if pos e < longitud \<and> \<not> consume_desconocido bad_chunk then
        (let col = int (pos e) - linea_inicio e + 1 in
         if tolerante then
           Inr (tokens e @
                  [\<lparr>lexema = bad_chunk, tipo = ERROR,
                    atributos = [(''fila'', Entero (linea e)), (''columna'', Entero col),
                                 (''motivo'', Texto ''desconocido'')]\<rparr>])
         else Inl (ExploradorError True (linea e) col (excerpt bad_chunk)))
      else Inr (tokens e))"

definition inicial :: estado where
  "inicial = \<lparr>tokens = [], linea = 1, linea_inicio = 0, pos = 0\<rparr>"

text \<open>
  \<open>tokenizar\<close>, for an explorer built with \<open>con_nuevaslineas\<close> and \<open>tolerante\<close>: \<open>None\<close> when
  the scan does not return, else the exception raised or the list returned.
\<close>

definition tokenizar :: "bool \<Rightarrow> bool \<Rightarrow> string \<Rightarrow> (error + token list) option" where
  "tokenizar con_nuevaslineas tolerante texto =
     (case finditer texto of
        None \<Rightarrow> None
      | Some ms \<Rightarrow>
          Some (case bucle con_nuevaslineas tolerante texto inicial ms of
                  Inl err \<Rightarrow> Inl err
                | Inr e \<Rightarrow> cierre tolerante texto e))"

subsection \<open>Notions used to state the properties\<close>

text \<open>A pattern that can match the empty text, read off its syntax.\<close>

fun anulable :: "regex \<Rightarrow> bool" where
  "anulable Vacio = True"
| "anulable (Lit c) = False"
| "anulable (Clase es) = False"
| "anulable (NoClase es) = False"
| "anulable (Sec a b) = (anulable a \<and> anulable b)"
| "anulable (Alt a b) = (anulable a \<or> anulable b)"
| "anulable (Estrella a) = True"

text \<open>The characters a match of a pattern can begin with, read off its syntax.\<close>

fun primer :: "regex \<Rightarrow> char \<Rightarrow> bool" where
  "primer Vacio c = False"
| "primer (Lit a) c = (c = a)"
| "primer (Clase es) c = en_clase es c"
| "primer (NoClase es) c = (\<not> en_clase es c)"
| "primer (Sec a b) c = (primer a c \<or> (anulable a \<and> primer b c))"
| "primer (Alt a b) c = (primer a c \<or> primer b c)"
| "primer (Estrella a) c = primer a c"

text \<open>
  Matches that follow one another from the cursor \<open>p\<close> on: each begins at or after the end
  of the one before, is not empty and ends inside the text of length \<open>lim\<close>.
\<close>

fun encadenadas :: "nat \<Rightarrow> nat \<Rightarrow> coincidencia list \<Rightarrow> bool" where
  "encadenadas lim p [] = True"
| "encadenadas lim p (m # ms) =
     (p \<le> inicio m \<and> inicio m < fin m \<and> fin m \<le> lim \<and> encadenadas lim (fin m) ms)"

text \<open>
  The spans \<open>tokenizar\<close> cuts the text into, in source order, with \<open>pos\<close> at \<open>p\<close>: before
  each match the gap \<open>texto[pos:inicio]\<close> when \<open>inicio != pos\<close>, then the lexeme of the match,
  and after the last match the rest \<open>texto[pos:longitud]\<close> when \<open>pos < longitud\<close>.
\<close>

fun tramos :: "string \<Rightarrow> coincidencia list \<Rightarrow> nat \<Rightarrow> string list" where
  "tramos texto [] p = (if p < length texto then [rebanada texto p (length texto)] else [])"
| "tramos texto (m # ms) p =
     (if inicio m \<noteq> p then [rebanada texto p (inicio m)] else []) @
     [rebanada texto (inicio m) (fin m)] @ tramos texto ms (fin m)"

text \<open>The gaps alone: the values \<open>bad_chunk\<close> takes in \<open>tokenizar\<close>.\<close>

fun huecos :: "string \<Rightarrow> coincidencia list \<Rightarrow> nat \<Rightarrow> string list" where
  "huecos texto [] p = (if p < length texto then [rebanada texto p (length texto)] else [])"
| "huecos texto (m # ms) p =
     (if inicio m \<noteq> p then [rebanada texto p (inicio m)] else []) @ huecos texto ms (fin m)"

text \<open>The loop over the matches that are left, followed by the check of the rest of the text.\<close>

definition resultado ::
  "bool \<Rightarrow> bool \<Rightarrow> string \<Rightarrow> estado \<Rightarrow> coincidencia list \<Rightarrow> error + token list" where
  "resultado cn tol texto e ms =
     (case bucle cn tol texto e ms of Inl err \<Rightarrow> Inl err | Inr e' \<Rightarrow> cierre tol texto e')"

text \<open>
  The offset \<open>q\<close> is not strictly inside a match of the scan: no match that begins before
  \<open>q\<close> extends over it, so the cursor of the scan comes to \<open>q\<close>.
\<close>

definition fuera_de_coincidencia :: "string \<Rightarrow> nat \<Rightarrow> bool" where
  "fuera_de_coincidencia texto q =
     (case finditer texto of
        None \<Rightarrow> False
      | Some ms \<Rightarrow> list_all (\<lambda>m. \<not> (inicio m < q \<and> q < fin m)) ms)"


section \<open>Properties\<close>

subsection \<open>Auxiliary facts\<close>

text \<open>
  A successful match hands a suffix of the text to its continuation, and a proper suffix
  when the pattern is not \<^const>\<open>anulable\<close>.
\<close>

lemma casar_resto:
  "casar r s k = Some x \<Longrightarrow> \<exists>p s'. s = p @ s' \<and> k s' = Some x \<and> (\<not> anulable r \<longrightarrow> p \<noteq> [])"
proof (induction r s k arbitrary: x rule: casar.induct)
  case (1 s k)
  then show ?case by (intro exI[of _ "[]"] exI[of _ s]) simp
next
  case (2 c s k)
  from "2.prems" obtain xs where "s = c # xs" "k xs = Some x"
    by (cases s) (auto split: if_splits)
  then show ?case by (intro exI[of _ "[c]"] exI[of _ xs]) simp
next
  case (3 es s k)
  from "3.prems" obtain c xs where "s = c # xs" "k xs = Some x"
    by (cases s) (auto split: if_splits)
  then show ?case by (intro exI[of _ "[c]"] exI[of _ xs]) simp
next
  case (4 es s k)
  from "4.prems" obtain c xs where "s = c # xs" "k xs = Some x"
    by (cases s) (auto split: if_splits)
  then show ?case by (intro exI[of _ "[c]"] exI[of _ xs]) simp
next
  case (5 a b s k)
  from "5.prems" have "casar a s (\<lambda>s'. casar b s' k) = Some x" by simp
  from "5.IH"(2)[OF this] obtain p s' where
    a: "s = p @ s'" "casar b s' k = Some x" "\<not> anulable a \<longrightarrow> p \<noteq> []" by blast
  from "5.IH"(1)[OF a(2)] obtain p' s'' where
    b: "s' = p' @ s''" "k s'' = Some x" "\<not> anulable b \<longrightarrow> p' \<noteq> []" by blast
  from a(1) b(1) have "s = (p @ p') @ s''" by simp
  moreover from a(3) b(3) have "\<not> anulable (Sec a b) \<longrightarrow> p @ p' \<noteq> []" by auto
  ultimately have "s = (p @ p') @ s''" "\<not> anulable (Sec a b) \<longrightarrow> p @ p' \<noteq> []" by blast+
  with b(2) show ?case by (intro exI[of _ "p @ p'"] exI[of _ s'']) simp
next
  case (6 a b s k)
  show ?case
  proof (cases "casar a s k")
    case None
    with "6.prems" have "casar b s k = Some x" by simp
    from "6.IH"(2)[OF None this] obtain p s' where
      "s = p @ s'" "k s' = Some x" "\<not> anulable b \<longrightarrow> p \<noteq> []" by blast
    then show ?thesis by (intro exI[of _ p] exI[of _ s']) simp
  next
    case (Some y)
    with "6.prems" have "casar a s k = Some x" by simp
    from "6.IH"(1)[OF this] obtain p s' where
      "s = p @ s'" "k s' = Some x" "\<not> anulable a \<longrightarrow> p \<noteq> []" by blast
    then show ?thesis by (intro exI[of _ p] exI[of _ s']) simp
  qed
next
  case (7 a s k)
  let ?K = "\<lambda>s'. if length s' < length s then casar (Estrella a) s' k else None"
  show ?case
  proof (cases "casar a s ?K")
    case None
    with "7.prems" have "k s = Some x" by simp
    then show ?thesis by (intro exI[of _ "[]"] exI[of _ s]) simp
  next
    case (Some y)
    with "7.prems" have "casar a s ?K = Some x" by simp
    from "7.IH"(2)[OF this] obtain p s' where
      a: "s = p @ s'" "?K s' = Some x" by blast
    from a(2) have l: "length s' < length s" and c: "casar (Estrella a) s' k = Some x"
      by (auto split: if_splits)
    from "7.IH"(1)[OF l c] obtain p' s'' where "s' = p' @ s''" "k s'' = Some x" by blast
    with a(1) have "s = (p @ p') @ s''" by simp
    with \<open>k s'' = Some x\<close> show ?thesis by (intro exI[of _ "p @ p'"] exI[of _ s'']) simp
  qed
qed

lemma casa_patron_cota:
  assumes "casa_patron r s = Some n"
  shows "n \<le> length s \<and> (\<not> anulable r \<longrightarrow> 0 < n)"
proof -
  from assms have "casar r s (\<lambda>s'. Some (length s - length s')) = Some n"
    by (simp add: casa_patron_def)
  from casar_resto[OF this] obtain p s' where "s = p @ s'" "Some (length s - length s') = Some n"
    "\<not> anulable r \<longrightarrow> p \<noteq> []"
    by blast
  then show ?thesis by auto
qed

text \<open>No pattern of the table matches the empty text.\<close>

lemmas defs_tabla = TOKEN_SPEC_def RE_COMENT_BLOQ_def RE_COMENT_LINEA_def RE_ESPACIO_def RE_NL_def
  RE_CADENA_def RE_NUM_FLOTANTE_def RE_NUM_ENTERO_def RE_IDENT_def OPS_RE_def PUNCT_RE_def
  MULTI_OPS_def SINGLE_OPS_def PUNCT_def Mas_def Opc_def fin_linea_def digito_def literal_def

lemma tabla_no_anulable: "\<forall>(nombre, patron) \<in> set TOKEN_SPEC. \<not> anulable patron"
  by (simp add: defs_tabla)

lemma primera_cota:
  "\<forall>(nombre, patron) \<in> set ts. \<not> anulable patron \<Longrightarrow> primera ts s = Some (t, n) \<Longrightarrow> 0 < n \<and> n \<le> length s"
proof (induction ts)
  case Nil
  then show ?case by simp
next
  case (Cons a ts)
  obtain nombre patron where a: "a = (nombre, patron)" by (cases a)
  show ?case
  proof (cases "casa_patron patron s")
    case None
    with Cons a show ?thesis by simp
  next
    case (Some m)
    with Cons.prems a have "m = n" "\<not> anulable patron" by auto
    with Some casa_patron_cota show ?thesis by blast
  qed
qed

lemma MASTER_RE_cota: "MASTER_RE s = Some (t, n) \<Longrightarrow> 0 < n \<and> n \<le> length s"
  unfolding MASTER_RE_def using primera_cota[OF tabla_no_anulable] by blast

text \<open>The scan returns for every text and every cursor, and its matches follow one another.\<close>

lemma encadenadas_antes: "encadenadas lim p ms \<Longrightarrow> q \<le> p \<Longrightarrow> encadenadas lim q ms"
  by (cases ms) auto

lemma finditer_desde_total:
  "\<exists>ms. finditer_desde texto p = Some ms \<and> encadenadas (length texto) p ms"
proof (induction "Suc (length texto) - p" arbitrary: p rule: less_induct)
  case less
  show ?case
  proof (cases "length texto < p")
    case True
    then have "finditer_desde texto p = Some []"
      by (subst finditer_desde.simps) simp
    then show ?thesis by simp
  next
    case False
    show ?thesis
    proof (cases "MASTER_RE (drop p texto)")
      case None
      from False have "Suc (length texto) - (p + 1) < Suc (length texto) - p" by simp
      from less[OF this] obtain ms where
        ms: "finditer_desde texto (p + 1) = Some ms" "encadenadas (length texto) (p + 1) ms"
        by blast
      from False None ms(1) have "finditer_desde texto p = Some ms"
        by (subst finditer_desde.simps) simp
      moreover from ms(2) have "encadenadas (length texto) p ms"
        by (rule encadenadas_antes) simp
      ultimately show ?thesis by blast
    next
      case (Some a)
      obtain t n where a: "a = (t, n)" by (cases a)
      from Some a MASTER_RE_cota have n: "0 < n" "n \<le> length (drop p texto)" by blast+
      with False have "Suc (length texto) - (p + n) < Suc (length texto) - p" by simp
      from less[OF this] obtain ms where
        ms: "finditer_desde texto (p + n) = Some ms" "encadenadas (length texto) (p + n) ms"
        by blast
      let ?m = "\<lparr>inicio = p, fin = p + n, grupo = t\<rparr>"
      from False Some a ms(1) have "finditer_desde texto p = Some (?m # ms)"
        by (subst finditer_desde.simps) simp
      moreover from n ms(2) False have "encadenadas (length texto) p (?m # ms)" by simp
      ultimately show ?thesis by blast
    qed
  qed
qed

lemma finditer_total: "\<exists>ms. finditer texto = Some ms \<and> encadenadas (length texto) 0 ms"
  unfolding finditer_def by (rule finditer_desde_total)

lemma encadenadas_sorted:
  "encadenadas lim p ms \<Longrightarrow>
     sorted_wrt (\<lambda>a b. fin a \<le> inicio b) ms \<and>
     (\<forall>m \<in> set ms. p \<le> inicio m \<and> inicio m < fin m \<and> fin m \<le> lim)"
proof (induction ms arbitrary: p)
  case Nil
  then show ?case by simp
next
  case (Cons m ms)
  from Cons.prems have m: "p \<le> inicio m" "inicio m < fin m" "fin m \<le> lim"
    and r: "encadenadas lim (fin m) ms" by simp_all
  from Cons.IH[OF r] have s: "sorted_wrt (\<lambda>a b. fin a \<le> inicio b) ms"
    and a: "\<forall>x \<in> set ms. fin m \<le> inicio x \<and> inicio x < fin x \<and> fin x \<le> lim" by blast+
  from a m have "\<forall>x \<in> set ms. p \<le> inicio x \<and> inicio x < fin x \<and> fin x \<le> lim" by auto
  with s a m show ?case by auto
qed

text \<open>Slices, and the spans of a scan.\<close>

lemma rebanada_drop: "a \<le> b \<Longrightarrow> rebanada t a b @ drop b t = drop a t"
proof -
  assume "a \<le> b"
  then have "drop b t = drop (b - a) (drop a t)" by simp
  then show ?thesis unfolding rebanada_def by (metis append_take_drop_id)
qed

lemma rebanada_vacia: "rebanada t a a = []"
  by (simp add: rebanada_def)

lemma rebanada_no_vacia: "a < b \<Longrightarrow> b \<le> length t \<Longrightarrow> rebanada t a b \<noteq> []"
  by (simp add: rebanada_def)

lemma rebanada_sublist: "a \<le> b \<Longrightarrow> sublist (rebanada t a b) t"
proof -
  assume "a \<le> b"
  then have "t = take a t @ rebanada t a b @ drop b t"
    by (simp add: rebanada_drop)
  then show ?thesis unfolding sublist_def by blast
qed

lemma concat_tramos:
  "encadenadas (length texto) p ms \<Longrightarrow> p \<le> length texto \<Longrightarrow>
   concat (tramos texto ms p) = drop p texto"
proof (induction ms arbitrary: p)
  case Nil
  then show ?case by (simp add: rebanada_def)
next
  case (Cons m ms)
  from Cons.prems have m: "p \<le> inicio m" "inicio m < fin m" "fin m \<le> length texto"
    and r: "encadenadas (length texto) (fin m) ms" by simp_all
  from Cons.IH[OF r m(3)] have "concat (tramos texto ms (fin m)) = drop (fin m) texto" .
  then have "concat (tramos texto (m # ms) p) =
      rebanada texto p (inicio m) @ (rebanada texto (inicio m) (fin m) @ drop (fin m) texto)"
    by (simp add: rebanada_vacia)
  also have "\<dots> = rebanada texto p (inicio m) @ drop (inicio m) texto"
    using m(2) by (simp add: rebanada_drop)
  also have "\<dots> = drop p texto" using m(1) by (rule rebanada_drop)
  finally show ?case .
qed

lemma tramos_buenos:
  "encadenadas (length texto) p ms \<Longrightarrow> p \<le> length texto \<Longrightarrow>
   \<forall>l \<in> set (tramos texto ms p). l \<noteq> [] \<and> sublist l texto"
proof (induction ms arbitrary: p)
  case Nil
  then show ?case by (auto simp: rebanada_no_vacia rebanada_sublist)
next
  case (Cons m ms)
  from Cons.prems have m: "p \<le> inicio m" "inicio m < fin m" "fin m \<le> length texto"
    and r: "encadenadas (length texto) (fin m) ms" by simp_all
  note ih = Cons.IH[OF r m(3)]
  from m have g: "inicio m \<noteq> p \<Longrightarrow> rebanada texto p (inicio m) \<noteq> []"
    by (intro rebanada_no_vacia) auto
  from m have l: "rebanada texto (inicio m) (fin m) \<noteq> []" by (intro rebanada_no_vacia) auto
  from ih g l m show ?case by (auto simp: rebanada_sublist)
qed

text \<open>The loop of \<open>tokenizar\<close>: what an iteration that goes through leaves, and what makes it stop.\<close>

lemma es_espacio_nl: "es_espacio c_nl"
  by (simp add: es_espacio_def c_nl_def)

lemma consume_desconocido_iff: "consume_desconocido g \<longleftrightarrow> (\<forall>c \<in> set g. es_espacio c)"
  using es_espacio_nl by (auto simp: consume_desconocido_def list_ex_iff)

lemma paso_Inr:
  assumes "paso cn tol texto e m = Inr e'"
  shows "pos e' = fin m"
    and "inicio m = pos e \<or> consume_desconocido (rebanada texto (pos e) (inicio m))"
    and "tokens e' = tokens e \<or>
         (\<exists>t. tokens e' = tokens e @ [t] \<and> lexema t = rebanada texto (inicio m) (fin m))"
  using assms unfolding paso_def Let_def
  by (auto split: if_splits prod.splits)

lemma paso_Inl:
  assumes "paso cn tol texto e m = Inl err"
  shows "inicio m \<noteq> pos e \<and> \<not> consume_desconocido (rebanada texto (pos e) (inicio m))"
    and "err = (if tol then TypeError
                else ExploradorError False (linea e) (int (pos e) - linea_inicio e + 1)
                       (excerpt (rebanada texto (pos e) (inicio m))))"
  using assms unfolding paso_def Let_def
  by (auto split: if_splits prod.splits)

lemma resultado_Nil: "resultado cn tol texto e [] = cierre tol texto e"
  by (simp add: resultado_def)

lemma resultado_Cons:
  "resultado cn tol texto e (m # ms) =
     (case paso cn tol texto e m of Inl err \<Rightarrow> Inl err | Inr e' \<Rightarrow> resultado cn tol texto e' ms)"
  by (simp add: resultado_def split: sum.splits)

lemma tokenizar_resultado:
  "finditer texto = Some ms \<Longrightarrow> tokenizar cn tol texto = Some (resultado cn tol texto inicial ms)"
  by (simp add: tokenizar_def resultado_def)

lemma resultado_subseq:
  "resultado cn tol texto e ms = Inr toks \<Longrightarrow>
   \<exists>nuevos. toks = tokens e @ nuevos \<and> subseq (map lexema nuevos) (tramos texto ms (pos e))"
proof (induction ms arbitrary: e)
  case Nil
  then have c: "cierre tol texto e = Inr toks" by (simp add: resultado_Nil)
  show ?case
  proof (cases "toks = tokens e")
    case True
    then show ?thesis by simp
  next
    case False
    with c have "pos e < length texto"
      and "\<exists>t. toks = tokens e @ [t] \<and> lexema t = rebanada texto (pos e) (length texto)"
      unfolding cierre_def Let_def by (auto split: if_splits)
    then show ?thesis by auto
  qed
next
  case (Cons m ms)
  from Cons.prems obtain e1 where p: "paso cn tol texto e m = Inr e1"
    and r: "resultado cn tol texto e1 ms = Inr toks"
    by (auto simp: resultado_Cons split: sum.splits)
  from Cons.IH[OF r] obtain nuevos where n: "toks = tokens e1 @ nuevos"
    "subseq (map lexema nuevos) (tramos texto ms (pos e1))" by blast
  from paso_Inr(1)[OF p] n(2) have s: "subseq (map lexema nuevos) (tramos texto ms (fin m))" by simp
  let ?l = "rebanada texto (inicio m) (fin m)"
  from paso_Inr(3)[OF p] obtain extra where x: "tokens e1 = tokens e @ extra"
    "subseq (map lexema extra) [?l]"
    by (cases "tokens e1 = tokens e") auto
  from x(2) s have "subseq (map lexema extra @ map lexema nuevos) ([?l] @ tramos texto ms (fin m))"
    by (rule list_emb_append_mono)
  then have "subseq (map lexema (extra @ nuevos)) (tramos texto (m # ms) (pos e))"
    by (auto intro: subseq_Cons')
  moreover from n(1) x(1) have "toks = tokens e @ (extra @ nuevos)" by simp
  ultimately show ?case by blast
qed

lemma resultado_estricto_huecos:
  "resultado cn False texto e ms = Inr toks \<Longrightarrow>
   \<forall>g \<in> set (huecos texto ms (pos e)). consume_desconocido g"
proof (induction ms arbitrary: e)
  case Nil
  then show ?case
    unfolding resultado_Nil cierre_def Let_def by (auto split: if_splits)
next
  case (Cons m ms)
  from Cons.prems obtain e1 where p: "paso cn False texto e m = Inr e1"
    and r: "resultado cn False texto e1 ms = Inr toks"
    by (auto simp: resultado_Cons split: sum.splits)
  from Cons.IH[OF r] paso_Inr(1)[OF p]
  have "\<forall>g \<in> set (huecos texto ms (fin m)). consume_desconocido g" by simp
  with paso_Inr(2)[OF p] show ?case by auto
qed

lemma resultado_estricto_error:
  "resultado cn False texto e ms = Inl err \<Longrightarrow> \<exists>f l c x. err = ExploradorError f l c x"
proof (induction ms arbitrary: e)
  case Nil
  then show ?case
    unfolding resultado_Nil cierre_def Let_def by (auto split: if_splits)
next
  case (Cons m ms)
  show ?case
  proof (cases "paso cn False texto e m")
    case (Inl a)
    with Cons.prems have "err = a" by (simp add: resultado_Cons)
    with paso_Inl(2)[OF Inl] show ?thesis by auto
  next
    case (Inr e1)
    with Cons.prems have "resultado cn False texto e1 ms = Inl err" by (simp add: resultado_Cons)
    then show ?thesis by (rule Cons.IH)
  qed
qed

lemma estricto_hueco_falla:
  assumes "g \<in> set (huecos texto ms (pos e))" "\<not> consume_desconocido g"
  shows "\<exists>f l c x. resultado cn False texto e ms = Inl (ExploradorError f l c x)"
proof (cases "resultado cn False texto e ms")
  case (Inl err)
  with resultado_estricto_error[OF Inl] show ?thesis by simp
next
  case (Inr toks)
  from resultado_estricto_huecos[OF Inr] assms show ?thesis by blast
qed

text \<open>A match begins with a character its pattern allows at the head.\<close>

lemma casar_primer:
  "casar r s k = Some x \<Longrightarrow> (\<exists>c cs. s = c # cs \<and> primer r c) \<or> (anulable r \<and> k s = Some x)"
proof (induction r s k arbitrary: x rule: casar.induct)
  case (1 s k)
  then show ?case by simp
next
  case (2 c s k)
  then show ?case by (cases s) (auto split: if_splits)
next
  case (3 es s k)
  then show ?case by (cases s) (auto split: if_splits)
next
  case (4 es s k)
  then show ?case by (cases s) (auto split: if_splits)
next
  case (5 a b s k)
  from "5.prems" have "casar a s (\<lambda>s'. casar b s' k) = Some x" by simp
  from "5.IH"(2)[OF this] consider
    (p) "\<exists>c cs. s = c # cs \<and> primer a c" | (n) "anulable a" "casar b s k = Some x" by blast
  then show ?case
  proof cases
    case p
    then show ?thesis by auto
  next
    case n
    from "5.IH"(1)[OF n(2)] n(1) show ?thesis by auto
  qed
next
  case (6 a b s k)
  show ?case
  proof (cases "casar a s k")
    case None
    with "6.prems" have "casar b s k = Some x" by simp
    from "6.IH"(2)[OF None this] show ?thesis by auto
  next
    case (Some y)
    with "6.prems" have "casar a s k = Some x" by simp
    from "6.IH"(1)[OF this] show ?thesis by auto
  qed
next
  case (7 a s k)
  let ?K = "\<lambda>s'. if length s' < length s then casar (Estrella a) s' k else None"
  show ?case
  proof (cases "casar a s ?K")
    case None
    with "7.prems" show ?thesis by simp
  next
    case (Some y)
    with "7.prems" have "casar a s ?K = Some x" by simp
    from "7.IH"(2)[OF this] show ?thesis by auto
  qed
qed

lemma casa_patron_primer:
  assumes "casa_patron r (c # cs) = Some n" "\<not> anulable r"
  shows "primer r c"
proof -
  from assms(1) have "casar r (c # cs) (\<lambda>s'. Some (length (c # cs) - length s')) = Some n"
    by (simp add: casa_patron_def)
  from casar_primer[OF this] assms(2) show ?thesis by simp
qed

lemma primera_primer:
  "primera ts (c # cs) = Some (t, n) \<Longrightarrow> \<forall>(nombre, patron) \<in> set ts. \<not> anulable patron \<Longrightarrow>
   \<exists>patron. (t, patron) \<in> set ts \<and> primer patron c \<and> casa_patron patron (c # cs) = Some n"
proof (induction ts)
  case Nil
  then show ?case by simp
next
  case (Cons a ts)
  obtain nombre patron where a: "a = (nombre, patron)" by (cases a)
  show ?case
  proof (cases "casa_patron patron (c # cs)")
    case None
    with Cons a show ?thesis by auto
  next
    case (Some m)
    with Cons.prems a have "m = n" "nombre = t" "\<not> anulable patron" by auto
    with Some casa_patron_primer a show ?thesis by auto
  qed
qed

text \<open>
  The string pattern: after the opening quote the body runs up to the first double quote
  or line terminator, and the match succeeds when that character is a double quote.
\<close>

lemma casar_cuerpo_cadena:
  "casar (Estrella (NoClase [Car c_comilla, Car c_nl])) s (\<lambda>s'. casar (Lit c_comilla) s' k) =
     (case dropWhile (\<lambda>c. c \<noteq> c_comilla \<and> c \<noteq> c_nl) s of
        [] \<Rightarrow> None
      | d # r \<Rightarrow> if d = c_comilla then k r else None)"
proof (induction s)
  case Nil
  then show ?case by simp
next
  case (Cons c cs)
  show ?case
  proof (cases "c \<noteq> c_comilla \<and> c \<noteq> c_nl")
    case True
    with Cons show ?thesis by (simp add: en_clase_def split: option.splits)
  next
    case False
    then show ?thesis by (auto simp: en_clase_def)
  qed
qed

lemma casa_patron_cadena:
  "casa_patron RE_CADENA s =
     (case s of
        [] \<Rightarrow> None
      | c # cs \<Rightarrow>
          if c = c_comilla then
            (case dropWhile (\<lambda>c. c \<noteq> c_comilla \<and> c \<noteq> c_nl) cs of
               [] \<Rightarrow> None
             | d # r \<Rightarrow> if d = c_comilla then Some (length s - length r) else None)
          else None)"
  unfolding casa_patron_def RE_CADENA_def sec.simps casar.simps(5) casar_cuerpo_cadena
  by (cases s) simp_all

lemma nl_no_comilla: "c_nl \<noteq> c_comilla"
  by (simp add: c_nl_def c_comilla_def)

lemma sin_cierre:
  "c_comilla \<notin> set (takeWhile (\<lambda>c. c \<noteq> c_nl) cs) \<Longrightarrow>
   (case dropWhile (\<lambda>c. c \<noteq> c_comilla \<and> c \<noteq> c_nl) cs of
      [] \<Rightarrow> None
    | d # r \<Rightarrow> if d = c_comilla then Some (f r) else None) = None"
  using nl_no_comilla by (induction cs) (auto split: if_splits)

lemma cadena_sin_cierre:
  "c_comilla \<notin> set (takeWhile (\<lambda>c. c \<noteq> c_nl) cs) \<Longrightarrow> casa_patron RE_CADENA (c_comilla # cs) = None"
  using sin_cierre[of cs "\<lambda>r. length (c_comilla # cs) - length r"]
  by (simp add: casa_patron_cadena)

text \<open>Each match of the scan is the match of the master pattern at its offset.\<close>

lemma finditer_desde_coincide:
  "finditer_desde texto p = Some ms \<Longrightarrow>
   \<forall>m \<in> set ms. MASTER_RE (drop (inicio m) texto) = Some (grupo m, fin m - inicio m)"
proof (induction "Suc (length texto) - p" arbitrary: p ms rule: less_induct)
  case less
  show ?case
  proof (cases "length texto < p")
    case True
    with less.prems have "ms = []"
      by (subst (asm) finditer_desde.simps) simp
    then show ?thesis by simp
  next
    case False
    show ?thesis
    proof (cases "MASTER_RE (drop p texto)")
      case None
      from False have d: "Suc (length texto) - (p + 1) < Suc (length texto) - p" by simp
      from False None less.prems have "finditer_desde texto (p + 1) = Some ms"
        by (subst (asm) finditer_desde.simps) simp
      from less.hyps[OF d this] show ?thesis .
    next
      case (Some a)
      obtain t n where a: "a = (t, n)" by (cases a)
      from Some a MASTER_RE_cota have n: "0 < n" "n \<le> length (drop p texto)" by blast+
      with False have d: "Suc (length texto) - (p + n) < Suc (length texto) - p" by simp
      let ?m = "\<lparr>inicio = p, fin = p + n, grupo = t\<rparr>"
      from False Some a less.prems obtain ms' where
        ms': "finditer_desde texto (p + n) = Some ms'" "ms = ?m # ms'"
        by (subst (asm) finditer_desde.simps) (auto simp: bind_eq_Some_conv)
      from less.hyps[OF d ms'(1)] Some a ms'(2) show ?thesis by simp
    qed
  qed
qed

text \<open>An offset that no match covers lies in a gap.\<close>

lemma en_rebanada:
  assumes "a \<le> q" "q < b" "q < length t"
  shows "t ! q \<in> set (rebanada t a b)"
proof -
  from assms have "q - a < length (rebanada t a b)" by (auto simp: rebanada_def)
  moreover from assms have "rebanada t a b ! (q - a) = t ! q" by (auto simp: rebanada_def)
  ultimately show ?thesis by (metis nth_mem)
qed

lemma posicion_en_hueco:
  "encadenadas lim p ms \<Longrightarrow> p \<le> q \<Longrightarrow> q < length texto \<Longrightarrow>
   \<forall>m \<in> set ms. \<not> (inicio m \<le> q \<and> q < fin m) \<Longrightarrow>
   \<exists>g \<in> set (huecos texto ms p). texto ! q \<in> set g"
proof (induction ms arbitrary: p)
  case Nil
  then show ?case by (simp add: en_rebanada)
next
  case (Cons m ms)
  show ?case
  proof (cases "q < inicio m")
    case True
    with Cons.prems have "texto ! q \<in> set (rebanada texto p (inicio m))" "inicio m \<noteq> p"
      by (simp_all add: en_rebanada)
    then show ?thesis by simp
  next
    case False
    with Cons.prems have "fin m \<le> q" "encadenadas lim (fin m) ms"
      "\<forall>x \<in> set ms. \<not> (inicio x \<le> q \<and> q < fin x)" by auto
    from Cons.IH[OF this(2) this(1) Cons.prems(3) this(3)] show ?thesis by auto
  qed
qed

lemma cadena_forma:
  assumes "casa_patron RE_CADENA s = Some n"
  shows "\<exists>cuerpo. take n s = c_comilla # cuerpo @ [c_comilla] \<and>
           c_comilla \<notin> set cuerpo \<and> c_nl \<notin> set cuerpo"
proof -
  let ?P = "\<lambda>c. c \<noteq> c_comilla \<and> c \<noteq> c_nl"
  from assms obtain cs r where s: "s = c_comilla # cs"
    and d: "dropWhile ?P cs = c_comilla # r" and n: "n = length s - length r"
    by (auto simp: casa_patron_cadena split: list.splits if_splits)
  let ?b = "takeWhile ?P cs"
  have "cs = ?b @ dropWhile ?P cs" by simp
  with d have cs: "cs = ?b @ c_comilla # r" by simp
  with s have "s = (c_comilla # ?b @ [c_comilla]) @ r" by simp
  moreover from this n have "n = length (c_comilla # ?b @ [c_comilla])"
    by (metis add_diff_cancel_right' length_append)
  ultimately have "take n s = c_comilla # ?b @ [c_comilla]"
    by (metis append_eq_conv_conj)
  moreover have "c_comilla \<notin> set ?b" "c_nl \<notin> set ?b"
    by (auto dest: set_takeWhileD)
  ultimately show ?thesis by blast
qed

lemma rebanada_sin_extremos: "rebanada lx 1 (length lx - 1) = butlast (tl lx)"
  by (cases lx) (simp_all add: rebanada_def butlast_conv_take)

lemma clasificar_cadena: "clasificar CADENA lx = (CADENA, [(''valor'', Texto (butlast (tl lx)))])"
  unfolding clasificar_def rebanada_sin_extremos by simp

lemma paso_cadena:
  assumes "grupo m = CADENA" "paso cn tol texto e m = Inr e'"
  shows "tokens e' = tokens e @
           [\<lparr>lexema = rebanada texto (inicio m) (fin m), tipo = CADENA,
             atributos =
               [(''valor'', Texto (butlast (tl (rebanada texto (inicio m) (fin m))))),
                (''fila'', Entero (linea e)),
                (''columna'', Entero (int (inicio m) - linea_inicio e + 1))]\<rparr>]"
  using assms unfolding paso_def Let_def
  by (auto simp: clasificar_cadena split: if_splits)

lemma solo_cadena_abre_comilla:
  "\<forall>(nombre, patron) \<in> set TOKEN_SPEC. primer patron c_comilla \<longrightarrow> patron = RE_CADENA"
  by (simp add: defs_tabla c_comilla_def c_nl_def c_cr_def c_tab_def c_ff_def c_vt_def en_clase_def)

lemma comilla_no_espacio: "\<not> es_espacio c_comilla"
  by (simp add: es_espacio_def c_comilla_def)

lemma sin_coincidencia_en_comilla:
  assumes "c_comilla \<notin> set (takeWhile (\<lambda>c. c \<noteq> c_nl) cs)"
  shows "MASTER_RE (c_comilla # cs) = None"
proof (cases "MASTER_RE (c_comilla # cs)")
  case None
  then show ?thesis .
next
  case (Some a)
  obtain t n where a: "a = (t, n)" by (cases a)
  from Some a have "primera TOKEN_SPEC (c_comilla # cs) = Some (t, n)" by (simp add: MASTER_RE_def)
  from primera_primer[OF this tabla_no_anulable] obtain patron where
    p: "(t, patron) \<in> set TOKEN_SPEC" "primer patron c_comilla"
       "casa_patron patron (c_comilla # cs) = Some n" by blast
  from p(1,2) solo_cadena_abre_comilla have "patron = RE_CADENA" by blast
  with p(3) cadena_sin_cierre[OF assms] show ?thesis by simp
qed

lemma subseq_miembro:
  assumes "subseq xs ys" "x \<in> set xs"
  shows "x \<in> set ys"
  using assms by (induction rule: list_emb.induct) auto


subsection \<open>Tolerant mode and a gap between two matches\<close>

text \<open>
  Claim C1. In tolerant mode an unrecognised gap between two matches is to give one token
  of kind \<open>ERROR\<close> whose lexeme is the gap, after which the scan goes on, so that
  \<open>x @ y\<close> gives \<open>IDENT x\<close>, \<open>ERROR @\<close>, \<open>IDENT y\<close> and no error. The code builds that
  token with five positional arguments, so the call on \<open>x @ y\<close> ends with \<open>TypeError\<close>
  and returns no list; the gap at the end of a text, as in \<open>@\<close>, does give the \<open>ERROR\<close>
  token with its row, column and reason.
\<close>

theorem error_de_tipo_en_tolerante:
  "tokenizar cn True ''x @ y'' = Some (Inl TypeError) \<and>
   tokenizar cn True ''@'' =
     Some (Inr [\<lparr>lexema = ''@'', tipo = ERROR,
                  atributos = [(''fila'', Entero 1), (''columna'', Entero 1),
                               (''motivo'', Texto ''desconocido'')]\<rparr>])"
proof -
  have "tokenizar True True ''x @ y'' = Some (Inl TypeError)"
    and "tokenizar False True ''x @ y'' = Some (Inl TypeError)"
    by code_simp+
  moreover have
    "tokenizar True True ''@'' =
       Some (Inr [\<lparr>lexema = ''@'', tipo = ERROR,
                    atributos = [(''fila'', Entero 1), (''columna'', Entero 1),
                                 (''motivo'', Texto ''desconocido'')]\<rparr>])"
    and "tokenizar False True ''@'' =
       Some (Inr [\<lparr>lexema = ''@'', tipo = ERROR,
                    atributos = [(''fila'', Entero 1), (''columna'', Entero 1),
                                 (''motivo'', Texto ''desconocido'')]\<rparr>])"
    by code_simp+
  ultimately show ?thesis by (cases cn) simp_all
qed

subsection \<open>Reconstruction of the text\<close>

text \<open>
  Claim C2. For every text the scan returns, and the spans of its matches together with
  the gaps between them, concatenated in source order, are the text itself. When
  \<open>tokenizar\<close> returns a list, the lexemes of its tokens are, in order, among those spans,
  and each of them is a non-empty contiguous part of the text.
\<close>

theorem reconstruccion:
  "\<exists>ms. finditer texto = Some ms \<and>
        concat (tramos texto ms 0) = texto \<and>
        (\<forall>toks. tokenizar cn tol texto = Some (Inr toks) \<longrightarrow>
           subseq (map lexema toks) (tramos texto ms 0) \<and>
           (\<forall>t \<in> set toks. lexema t \<noteq> [] \<and> sublist (lexema t) texto))"
proof -
  from finditer_total obtain ms where ms: "finditer texto = Some ms"
    "encadenadas (length texto) 0 ms" by blast
  from concat_tramos[OF ms(2)] have c: "concat (tramos texto ms 0) = texto" by simp
  from tramos_buenos[OF ms(2)]
  have b: "\<forall>l \<in> set (tramos texto ms 0). l \<noteq> [] \<and> sublist l texto" by simp
  have d: "\<forall>toks. tokenizar cn tol texto = Some (Inr toks) \<longrightarrow>
           subseq (map lexema toks) (tramos texto ms 0) \<and>
           (\<forall>t \<in> set toks. lexema t \<noteq> [] \<and> sublist (lexema t) texto)"
  proof (intro allI impI)
    fix toks
    assume t: "tokenizar cn tol texto = Some (Inr toks)"
    from t tokenizar_resultado[OF ms(1), of cn tol]
    have "resultado cn tol texto inicial ms = Inr toks" by simp
    from resultado_subseq[OF this] have s: "subseq (map lexema toks) (tramos texto ms 0)"
      by (simp add: inicial_def)
    have "lexema t \<noteq> [] \<and> sublist (lexema t) texto" if "t \<in> set toks" for t
    proof -
      from that have "lexema t \<in> set (map lexema toks)" by simp
      with s have "lexema t \<in> set (tramos texto ms 0)" by (rule subseq_miembro)
      with b show ?thesis by blast
    qed
    with s show "subseq (map lexema toks) (tramos texto ms 0) \<and>
           (\<forall>t \<in> set toks. lexema t \<noteq> [] \<and> sublist (lexema t) texto)" by blast
  qed
  show ?thesis
    by (rule exI[of _ ms]) (intro conjI ms(1) c d)
qed

theorem reconstruccion_witness:
  "tokenizar False False ''a = 1'' =
     Some (Inr [\<lparr>lexema = ''a'', tipo = IDENT,
                  atributos = [(''fila'', Entero 1), (''columna'', Entero 1)]\<rparr>,
                \<lparr>lexema = ''='', tipo = OPERADOR,
                  atributos = [(''fila'', Entero 1), (''columna'', Entero 3)]\<rparr>,
                \<lparr>lexema = ''1'', tipo = NUM_ENTERO,
                  atributos = [(''fila'', Entero 1), (''columna'', Entero 5)]\<rparr>]) \<and>
   (\<exists>ms. finditer ''a = 1'' = Some ms \<and>
         tramos ''a = 1'' ms 0 = [''a'', '' '', ''='', '' '', ''1''] \<and>
         concat (tramos ''a = 1'' ms 0) = ''a = 1'' \<and>
         subseq [''a'', ''='', ''1''] (tramos ''a = 1'' ms 0)) \<and>
   sublist ''='' ''a = 1''"
proof -
  let ?toks = "[\<lparr>lexema = ''a'', tipo = IDENT,
                  atributos = [(''fila'', Entero 1), (''columna'', Entero 1)]\<rparr>,
                \<lparr>lexema = ''='', tipo = OPERADOR,
                  atributos = [(''fila'', Entero 1), (''columna'', Entero 3)]\<rparr>,
                \<lparr>lexema = ''1'', tipo = NUM_ENTERO,
                  atributos = [(''fila'', Entero 1), (''columna'', Entero 5)]\<rparr>]"
  let ?ms = "[\<lparr>inicio = 0, fin = 1, grupo = IDENT\<rparr>, \<lparr>inicio = 1, fin = 2, grupo = ESPACIO\<rparr>,
              \<lparr>inicio = 2, fin = 3, grupo = OPERADOR\<rparr>, \<lparr>inicio = 3, fin = 4, grupo = ESPACIO\<rparr>,
              \<lparr>inicio = 4, fin = 5, grupo = NUM_ENTERO\<rparr>]"
  have h: "tokenizar False False ''a = 1'' = Some (Inr ?toks)" by code_simp
  have f: "finditer ''a = 1'' = Some ?ms" by code_simp
  have t: "tramos ''a = 1'' ?ms 0 = [''a'', '' '', ''='', '' '', ''1'']" by code_simp
  from reconstruccion[of "''a = 1''" False False] obtain ms where
    ms: "finditer ''a = 1'' = Some ms" "concat (tramos ''a = 1'' ms 0) = ''a = 1''"
        "\<forall>toks. tokenizar False False ''a = 1'' = Some (Inr toks) \<longrightarrow>
           subseq (map lexema toks) (tramos ''a = 1'' ms 0) \<and>
           (\<forall>t \<in> set toks. lexema t \<noteq> [] \<and> sublist (lexema t) ''a = 1'')"
    by blast
  from ms(1) f have e: "ms = ?ms" by simp
  from ms(3) h have s: "subseq (map lexema ?toks) (tramos ''a = 1'' ms 0)"
    and l: "\<forall>t \<in> set ?toks. lexema t \<noteq> [] \<and> sublist (lexema t) ''a = 1''" by blast+
  from s have s': "subseq [''a'', ''='', ''1''] (tramos ''a = 1'' ms 0)" by simp
  from l have l': "sublist ''='' ''a = 1''" by simp
  from t e have t': "tramos ''a = 1'' ms 0 = [''a'', '' '', ''='', '' '', ''1'']" by blast
  from ms(1) t' ms(2) s' have "\<exists>ms. finditer ''a = 1'' = Some ms \<and>
         tramos ''a = 1'' ms 0 = [''a'', '' '', ''='', '' '', ''1''] \<and>
         concat (tramos ''a = 1'' ms 0) = ''a = 1'' \<and>
         subseq [''a'', ''='', ''1''] (tramos ''a = 1'' ms 0)" by blast
  with h l' show ?thesis by blast
qed

subsection \<open>Rows after a comment\<close>

text \<open>
  Claim C3. The row of a token is to be the line of its first character, one more than the
  number of line terminators before its offset. The row counter moves on matches of the
  group \<open>NL\<close> only, and a line comment takes the line terminator that ends it: in the text
  \<open>//\<close>, line terminator, \<open>x\<close> the identifier is the first character of line 2, and its
  token carries row 1 (and column 4), under both options.
\<close>

theorem fila_tras_comentario:
  "tokenizar cn tol [CHR ''/'', CHR ''/'', c_nl, CHR ''x''] =
     Some (Inr [\<lparr>lexema = ''x'', tipo = IDENT,
                  atributos = [(''fila'', Entero 1), (''columna'', Entero 4)]\<rparr>]) \<and>
   [CHR ''/'', CHR ''/'', c_nl, CHR ''x''] ! 3 = CHR ''x'' \<and>
   1 + int (count_list (take 3 [CHR ''/'', CHR ''/'', c_nl, CHR ''x'']) c_nl) = 2"
proof -
  let ?t = "[CHR ''/'', CHR ''/'', c_nl, CHR ''x'']"
  let ?r = "Some (Inr [\<lparr>lexema = ''x'', tipo = IDENT,
                  atributos = [(''fila'', Entero 1), (''columna'', Entero 4)]\<rparr>])"
  have "tokenizar True True ?t = ?r" "tokenizar True False ?t = ?r"
    "tokenizar False True ?t = ?r" "tokenizar False False ?t = ?r"
    by code_simp+
  then have "tokenizar cn tol ?t = ?r" by (cases cn; cases tol) simp_all
  moreover have "1 + int (count_list (take 3 ?t) c_nl) = 2" by (simp add: c_nl_def)
  ultimately show ?thesis by simp
qed

subsection \<open>Failure without tolerance\<close>

text \<open>
  Claim C4. Without tolerance the text \<open>@\<close> raises \<open>ExploradorError\<close> for row 1 and
  column 1, and no list is returned. More generally, for every text: when one of the gaps
  of the scan holds a character that is not whitespace, the call without tolerance raises
  \<open>ExploradorError\<close> and returns no list.
\<close>

theorem fallo_estricto:
  "tokenizar cn False ''@'' = Some (Inl (ExploradorError True 1 1 ''@'')) \<and>
   (\<forall>ms g. finditer texto = Some ms \<longrightarrow> g \<in> set (huecos texto ms 0) \<longrightarrow>
      (\<exists>c \<in> set g. \<not> es_espacio c) \<longrightarrow>
      (\<exists>f l c x. tokenizar cn False texto = Some (Inl (ExploradorError f l c x))))"
proof -
  have "tokenizar True False ''@'' = Some (Inl (ExploradorError True 1 1 ''@''))"
    and "tokenizar False False ''@'' = Some (Inl (ExploradorError True 1 1 ''@''))"
    by code_simp+
  then have a: "tokenizar cn False ''@'' = Some (Inl (ExploradorError True 1 1 ''@''))"
    by (cases cn) simp_all
  have b: "\<exists>f l c x. tokenizar cn False texto = Some (Inl (ExploradorError f l c x))"
    if ms: "finditer texto = Some ms" and g: "g \<in> set (huecos texto ms 0)"
      and c: "\<exists>c \<in> set g. \<not> es_espacio c" for ms g
  proof -
    from c have "\<not> consume_desconocido g" by (simp add: consume_desconocido_iff)
    from estricto_hueco_falla[of g texto ms inicial cn] g this
    obtain f l c x where "resultado cn False texto inicial ms = Inl (ExploradorError f l c x)"
      by (auto simp: inicial_def)
    with tokenizar_resultado[OF ms] show ?thesis by simp
  qed
  from a b show ?thesis by blast
qed

theorem fallo_estricto_witness:
  "finditer ''x @ y'' =
     Some [\<lparr>inicio = 0, fin = 1, grupo = IDENT\<rparr>, \<lparr>inicio = 1, fin = 2, grupo = ESPACIO\<rparr>,
           \<lparr>inicio = 3, fin = 4, grupo = ESPACIO\<rparr>, \<lparr>inicio = 4, fin = 5, grupo = IDENT\<rparr>] \<and>
   huecos ''x @ y''
     [\<lparr>inicio = 0, fin = 1, grupo = IDENT\<rparr>, \<lparr>inicio = 1, fin = 2, grupo = ESPACIO\<rparr>,
      \<lparr>inicio = 3, fin = 4, grupo = ESPACIO\<rparr>, \<lparr>inicio = 4, fin = 5, grupo = IDENT\<rparr>] 0 = [''@''] \<and>
   \<not> es_espacio (CHR ''@'') \<and>
   (\<exists>f l c x. tokenizar True False ''x @ y'' = Some (Inl (ExploradorError f l c x))) \<and>
   tokenizar True False ''x @ y'' = Some (Inl (ExploradorError False 1 3 ''@''))"
proof -
  let ?ms = "[\<lparr>inicio = 0, fin = 1, grupo = IDENT\<rparr>, \<lparr>inicio = 1, fin = 2, grupo = ESPACIO\<rparr>,
           \<lparr>inicio = 3, fin = 4, grupo = ESPACIO\<rparr>, \<lparr>inicio = 4, fin = 5, grupo = IDENT\<rparr>]"
  have f: "finditer ''x @ y'' = Some ?ms" by code_simp
  have h: "huecos ''x @ y'' ?ms 0 = [''@'']" by code_simp
  have e: "\<not> es_espacio (CHR ''@'')" by code_simp
  have t: "tokenizar True False ''x @ y'' = Some (Inl (ExploradorError False 1 3 ''@''))"
    by code_simp
  from h have g: "''@'' \<in> set (huecos ''x @ y'' ?ms 0)" by simp
  from e have c: "\<exists>c \<in> set ''@''. \<not> es_espacio c" by simp
  from fallo_estricto[of True "''x @ y''"] f g c
  have "\<exists>f l c x. tokenizar True False ''x @ y'' = Some (Inl (ExploradorError f l c x))"
    by blast
  with f h e t show ?thesis by blast
qed

subsection \<open>Block comments and asterisks\<close>

text \<open>
  Claim C5. At a block comment opener that is followed by \<open>*/\<close>, the block comment pattern
  is to match up to and including the first \<open>*/\<close>, whatever lies between. The pattern pairs
  an asterisk of the body with the character after it: on \<open>/***/\<close> it does not match at
  all (the master pattern gives the operator \<open>/\<close>), and on \<open>/*a**/b*/\<close>, whose first \<open>*/\<close>
  ends at offset 6, it matches all nine characters.
\<close>

theorem comentario_bloque_asteriscos:
  "casa_patron RE_COMENT_BLOQ ''/***/'' = None \<and>
   MASTER_RE ''/***/'' = Some (OPERADOR, 1) \<and>
   casa_patron RE_COMENT_BLOQ ''/*a**/b*/'' = Some 9 \<and>
   take 6 ''/*a**/b*/'' = ''/*a**/''"
proof -
  have "casa_patron RE_COMENT_BLOQ ''/***/'' = None" by code_simp
  moreover have "MASTER_RE ''/***/'' = Some (OPERADOR, 1)" by code_simp
  moreover have "casa_patron RE_COMENT_BLOQ ''/*a**/b*/'' = Some 9" by code_simp
  ultimately show ?thesis by simp
qed

subsection \<open>Progress of the scan\<close>

text \<open>
  Claim C6. Every pattern of the table matches non-empty spans only, and so does the
  master pattern; hence the scan of any text returns, its matches are non-empty, follow
  one another from left to right and end inside the text, and \<open>tokenizar\<close> returns (a list
  or an exception) for every text and both options.
\<close>

theorem progreso:
  "(\<forall>(nombre, patron) \<in> set TOKEN_SPEC. \<forall>s n. casa_patron patron s = Some n \<longrightarrow> 0 < n) \<and>
   (\<forall>s nombre n. MASTER_RE s = Some (nombre, n) \<longrightarrow> 0 < n) \<and>
   (\<exists>ms. finditer texto = Some ms \<and>
         sorted_wrt (\<lambda>a b. fin a \<le> inicio b) ms \<and>
         (\<forall>m \<in> set ms. inicio m < fin m \<and> fin m \<le> length texto)) \<and>
   (\<exists>r. tokenizar cn tol texto = Some r)"
proof -
  have a: "\<forall>(nombre, patron) \<in> set TOKEN_SPEC. \<forall>s n. casa_patron patron s = Some n \<longrightarrow> 0 < n"
    using tabla_no_anulable casa_patron_cota by blast
  have b: "\<forall>s nombre n. MASTER_RE s = Some (nombre, n) \<longrightarrow> 0 < n"
    using MASTER_RE_cota by blast
  from finditer_total obtain ms where ms: "finditer texto = Some ms"
    "encadenadas (length texto) 0 ms" by blast
  from encadenadas_sorted[OF ms(2)] ms(1)
  have c: "\<exists>ms. finditer texto = Some ms \<and>
         sorted_wrt (\<lambda>a b. fin a \<le> inicio b) ms \<and>
         (\<forall>m \<in> set ms. inicio m < fin m \<and> fin m \<le> length texto)" by blast
  from tokenizar_resultado[OF ms(1)] have d: "\<exists>r. tokenizar cn tol texto = Some r" by blast
  from a b c d show ?thesis by blast
qed

theorem progreso_witness:
  "casa_patron RE_NUM_ENTERO ''12'' = Some 2 \<and> (0::nat) < 2 \<and>
   MASTER_RE ''&&='' = Some (OPERADOR, 2) \<and>
   (\<exists>ms. finditer ''a = 1'' = Some ms \<and> sorted_wrt (\<lambda>a b. fin a \<le> inicio b) ms) \<and>
   (\<exists>r. tokenizar False True ''a = 1'' = Some r)"
proof -
  have h1: "casa_patron RE_NUM_ENTERO ''12'' = Some 2" by code_simp
  have h2: "MASTER_RE ''&&='' = Some (OPERADOR, 2)" by code_simp
  from progreso[of "''a = 1''" False True] h1 h2 show ?thesis by auto
qed

subsection \<open>Two-character operators first\<close>

text \<open>
  Claim C7. Without tolerance the text \<open>&&=\<close> gives exactly two tokens, the operator
  \<open>&&\<close> and the operator \<open>=\<close>: at offset 0 the master pattern matches the two
  characters \<open>&&\<close>.
\<close>

theorem operador_doble:
  "tokenizar cn False ''&&='' =
     Some (Inr [\<lparr>lexema = ''&&'', tipo = OPERADOR,
                  atributos = [(''fila'', Entero 1), (''columna'', Entero 1)]\<rparr>,
                \<lparr>lexema = ''='', tipo = OPERADOR,
                  atributos = [(''fila'', Entero 1), (''columna'', Entero 3)]\<rparr>]) \<and>
   MASTER_RE ''&&='' = Some (OPERADOR, 2)"
proof -
  have "tokenizar True False ''&&='' =
     Some (Inr [\<lparr>lexema = ''&&'', tipo = OPERADOR,
                  atributos = [(''fila'', Entero 1), (''columna'', Entero 1)]\<rparr>,
                \<lparr>lexema = ''='', tipo = OPERADOR,
                  atributos = [(''fila'', Entero 1), (''columna'', Entero 3)]\<rparr>])"
    and "tokenizar False False ''&&='' =
     Some (Inr [\<lparr>lexema = ''&&'', tipo = OPERADOR,
                  atributos = [(''fila'', Entero 1), (''columna'', Entero 1)]\<rparr>,
                \<lparr>lexema = ''='', tipo = OPERADOR,
                  atributos = [(''fila'', Entero 1), (''columna'', Entero 3)]\<rparr>])"
    by code_simp+
  moreover have "MASTER_RE ''&&='' = Some (OPERADOR, 2)" by code_simp
  ultimately show ?thesis by (cases cn) simp_all
qed

subsection \<open>Unterminated string literals\<close>

text \<open>
  A double quote with no further double quote before the next line terminator or the end
  of the text: the string pattern does not match at it, and no pattern of the table does.
  When no match that begins before the quote extends over it, the quote is part of a gap
  and \<open>tokenizar\<close> without tolerance raises \<open>ExploradorError\<close>.
\<close>

lemma comilla_fuera_de_coincidencia:
  assumes "q < length texto" and "texto ! q = c_comilla"
    and "c_comilla \<notin> set (takeWhile (\<lambda>c. c \<noteq> c_nl) (drop (Suc q) texto))"
  shows "casa_patron RE_CADENA (drop q texto) = None \<and>
         MASTER_RE (drop q texto) = None \<and>
         (fuera_de_coincidencia texto q \<longrightarrow>
            (\<exists>f l c x. tokenizar cn False texto = Some (Inl (ExploradorError f l c x))))"
proof -
  from assms(1,2) have d: "drop q texto = c_comilla # drop (Suc q) texto"
    by (metis Cons_nth_drop_Suc)
  from cadena_sin_cierre[OF assms(3)] d have c1: "casa_patron RE_CADENA (drop q texto) = None"
    by simp
  from sin_coincidencia_en_comilla[OF assms(3)] d have c2: "MASTER_RE (drop q texto) = None"
    by simp
  have c3: "\<exists>f l c x. tokenizar cn False texto = Some (Inl (ExploradorError f l c x))"
    if f: "fuera_de_coincidencia texto q"
  proof -
    from finditer_total obtain ms where ms: "finditer texto = Some ms"
      "encadenadas (length texto) 0 ms" by blast
    from f ms(1) have i: "\<forall>m \<in> set ms. \<not> (inicio m < q \<and> q < fin m)"
      by (simp add: fuera_de_coincidencia_def list_all_iff)
    from ms(1) have "\<forall>m \<in> set ms. MASTER_RE (drop (inicio m) texto) = Some (grupo m, fin m - inicio m)"
      unfolding finditer_def by (rule finditer_desde_coincide)
    with c2 have "\<forall>m \<in> set ms. inicio m \<noteq> q" by auto
    with i have "\<forall>m \<in> set ms. \<not> (inicio m \<le> q \<and> q < fin m)" by (auto simp: le_less)
    from posicion_en_hueco[OF ms(2) _ assms(1) this] assms(2)
    obtain g where g: "g \<in> set (huecos texto ms 0)" "c_comilla \<in> set g" by auto
    from g(2) comilla_no_espacio have "\<not> consume_desconocido g"
      by (auto simp: consume_desconocido_iff)
    from estricto_hueco_falla[of g texto ms inicial cn] g(1) this
    obtain f l c x where "resultado cn False texto inicial ms = Inl (ExploradorError f l c x)"
      by (auto simp: inicial_def)
    with tokenizar_resultado[OF ms(1)] show ?thesis by simp
  qed
  from c1 c2 c3 show ?thesis by blast
qed

text \<open>
  Claim C8. An opening double quote with no closing double quote before the next line
  terminator or the end of the text is not matched by the string pattern, is
  unrecognised input, and makes \<open>tokenizar\<close> without tolerance raise \<open>ExploradorError\<close>.
  The string pattern indeed never matches at such a quote, but the block comment pattern
  can run over it: in the text \<open>/*a**/"*/\<close> the comment \<open>/*a**/\<close> ends at offset 6, the
  quote at offset 6 opens a literal that is never closed, the string pattern does not
  match there, and yet the scan yields the single match of the group \<open>COMENT_BLOQ\<close> over
  all nine characters; there is no gap, and the call without tolerance returns the
  empty list and raises nothing.
\<close>

theorem comilla_tras_comentario:
  "(''/*a**/'' @ c_comilla # ''*/'') ! 6 = c_comilla \<and>
   take 6 (''/*a**/'' @ c_comilla # ''*/'') = ''/*a**/'' \<and>
   c_comilla \<notin> set (takeWhile (\<lambda>c. c \<noteq> c_nl) (drop 7 (''/*a**/'' @ c_comilla # ''*/''))) \<and>
   casa_patron RE_CADENA (drop 6 (''/*a**/'' @ c_comilla # ''*/'')) = None \<and>
   finditer (''/*a**/'' @ c_comilla # ''*/'') = Some [\<lparr>inicio = 0, fin = 9, grupo = COMENT_BLOQ\<rparr>] \<and>
   huecos (''/*a**/'' @ c_comilla # ''*/'') [\<lparr>inicio = 0, fin = 9, grupo = COMENT_BLOQ\<rparr>] 0 = [] \<and>
   tokenizar cn False (''/*a**/'' @ c_comilla # ''*/'') = Some (Inr [])"
proof -
  let ?t = "''/*a**/'' @ c_comilla # ''*/''"
  have a: "?t ! 6 = c_comilla" by simp
  have b: "take 6 ?t = ''/*a**/''" by simp
  have c: "c_comilla \<notin> set (takeWhile (\<lambda>c. c \<noteq> c_nl) (drop 7 ?t))"
    by (simp add: c_comilla_def c_nl_def)
  have d: "casa_patron RE_CADENA (drop 6 ?t) = None" by code_simp
  have e: "finditer ?t = Some [\<lparr>inicio = 0, fin = 9, grupo = COMENT_BLOQ\<rparr>]" by code_simp
  have f: "huecos ?t [\<lparr>inicio = 0, fin = 9, grupo = COMENT_BLOQ\<rparr>] 0 = []" by code_simp
  have "tokenizar True False ?t = Some (Inr [])" "tokenizar False False ?t = Some (Inr [])"
    by code_simp+
  then have g: "tokenizar cn False ?t = Some (Inr [])" by (cases cn) simp_all
  from a b c d e f g show ?thesis by blast
qed

subsection \<open>The value of a string token\<close>

text \<open>
  Claim C9. A match of the group \<open>CADENA\<close> gives a token of kind \<open>CADENA\<close> whose lexeme is
  the match, quotes included, and whose attribute \<open>valor\<close> is the lexeme without its first
  and last character; a match of the string pattern begins and ends with a double quote,
  so \<open>valor\<close> is the text between the quotes, unchanged: a backslash stays a backslash.
  The text \<open>"hola"\<close> gives one token with the lexeme \<open>"hola"\<close> and the value \<open>hola\<close>.
\<close>

theorem valor_de_cadena:
  "(\<forall>lx. clasificar CADENA lx = (CADENA, [(''valor'', Texto (butlast (tl lx)))])) \<and>
   (\<forall>s n. casa_patron RE_CADENA s = Some n \<longrightarrow>
      (\<exists>cuerpo. take n s = c_comilla # cuerpo @ [c_comilla] \<and>
         clasificar CADENA (take n s) = (CADENA, [(''valor'', Texto cuerpo)]))) \<and>
   (\<forall>e m e'. grupo m = CADENA \<longrightarrow> paso cn tol texto e m = Inr e' \<longrightarrow>
      tokens e' = tokens e @
        [\<lparr>lexema = rebanada texto (inicio m) (fin m), tipo = CADENA,
          atributos =
            [(''valor'', Texto (butlast (tl (rebanada texto (inicio m) (fin m))))),
             (''fila'', Entero (linea e)),
             (''columna'', Entero (int (inicio m) - linea_inicio e + 1))]\<rparr>]) \<and>
   tokenizar cn tol (c_comilla # ''hola'' @ [c_comilla]) =
     Some (Inr [\<lparr>lexema = c_comilla # ''hola'' @ [c_comilla], tipo = CADENA,
                  atributos = [(''valor'', Texto ''hola''), (''fila'', Entero 1),
                               (''columna'', Entero 1)]\<rparr>]) \<and>
   tokenizar cn tol [c_comilla, CHR ''a'', CHR 0x5C, CHR ''n'', c_comilla] =
     Some (Inr [\<lparr>lexema = [c_comilla, CHR ''a'', CHR 0x5C, CHR ''n'', c_comilla], tipo = CADENA,
                  atributos = [(''valor'', Texto [CHR ''a'', CHR 0x5C, CHR ''n'']),
                               (''fila'', Entero 1), (''columna'', Entero 1)]\<rparr>])"
proof -
  have a: "\<forall>lx. clasificar CADENA lx = (CADENA, [(''valor'', Texto (butlast (tl lx)))])"
    by (simp add: clasificar_cadena)
  have b: "\<exists>cuerpo. take n s = c_comilla # cuerpo @ [c_comilla] \<and>
         clasificar CADENA (take n s) = (CADENA, [(''valor'', Texto cuerpo)])"
    if "casa_patron RE_CADENA s = Some n" for s n
  proof -
    from cadena_forma[OF that] obtain cuerpo where
      c: "take n s = c_comilla # cuerpo @ [c_comilla]" by blast
    then have "clasificar CADENA (take n s) = (CADENA, [(''valor'', Texto cuerpo)])"
      by (simp add: clasificar_cadena)
    with c show ?thesis by blast
  qed
  have c: "tokens e' = tokens e @
        [\<lparr>lexema = rebanada texto (inicio m) (fin m), tipo = CADENA,
          atributos =
            [(''valor'', Texto (butlast (tl (rebanada texto (inicio m) (fin m))))),
             (''fila'', Entero (linea e)),
             (''columna'', Entero (int (inicio m) - linea_inicio e + 1))]\<rparr>]"
    if "grupo m = CADENA" "paso cn tol texto e m = Inr e'" for e m e'
    using that by (rule paso_cadena)
  let ?t1 = "c_comilla # ''hola'' @ [c_comilla]"
  let ?r1 = "Some (Inr [\<lparr>lexema = c_comilla # ''hola'' @ [c_comilla], tipo = CADENA,
                  atributos = [(''valor'', Texto ''hola''), (''fila'', Entero 1),
                               (''columna'', Entero 1)]\<rparr>])"
  have "tokenizar True True ?t1 = ?r1" "tokenizar True False ?t1 = ?r1"
    "tokenizar False True ?t1 = ?r1" "tokenizar False False ?t1 = ?r1"
    by code_simp+
  then have d: "tokenizar cn tol ?t1 = ?r1" by (cases cn; cases tol) simp_all
  let ?t2 = "[c_comilla, CHR ''a'', CHR 0x5C, CHR ''n'', c_comilla]"
  let ?r2 = "Some (Inr [\<lparr>lexema = [c_comilla, CHR ''a'', CHR 0x5C, CHR ''n'', c_comilla], tipo = CADENA,
                  atributos = [(''valor'', Texto [CHR ''a'', CHR 0x5C, CHR ''n'']),
                               (''fila'', Entero 1), (''columna'', Entero 1)]\<rparr>])"
  have "tokenizar True True ?t2 = ?r2" "tokenizar True False ?t2 = ?r2"
    "tokenizar False True ?t2 = ?r2" "tokenizar False False ?t2 = ?r2"
    by code_simp+
  then have e: "tokenizar cn tol ?t2 = ?r2" by (cases cn; cases tol) simp_all
  from a b c d e show ?thesis by blast
qed

theorem valor_de_cadena_witness:
  "casa_patron RE_CADENA (c_comilla # ''hola'' @ [c_comilla] @ '' x'') = Some 6 \<and>
   (\<exists>cuerpo. take 6 (c_comilla # ''hola'' @ [c_comilla] @ '' x'') =
        c_comilla # cuerpo @ [c_comilla] \<and>
      clasificar CADENA (take 6 (c_comilla # ''hola'' @ [c_comilla] @ '' x'')) =
        (CADENA, [(''valor'', Texto cuerpo)])) \<and>
   clasificar CADENA (c_comilla # ''hola'' @ [c_comilla]) = (CADENA, [(''valor'', Texto ''hola'')])"
proof -
  let ?s = "c_comilla # ''hola'' @ [c_comilla] @ '' x''"
  have h: "casa_patron RE_CADENA ?s = Some 6" by code_simp
  from valor_de_cadena[of False False "[]"] h
  have "\<exists>cuerpo. take 6 ?s = c_comilla # cuerpo @ [c_comilla] \<and>
      clasificar CADENA (take 6 ?s) = (CADENA, [(''valor'', Texto cuerpo)])" by blast
  moreover from valor_de_cadena[of False False "[]"]
  have "clasificar CADENA (c_comilla # ''hola'' @ [c_comilla]) =
          (CADENA, [(''valor'', Texto (butlast (tl (c_comilla # ''hola'' @ [c_comilla]))))])"
    by blast
  then have "clasificar CADENA (c_comilla # ''hola'' @ [c_comilla]) =
          (CADENA, [(''valor'', Texto ''hola'')])" by simp
  ultimately show ?thesis using h by blast
qed

subsection \<open>The empty text\<close>

text \<open>
  Claim C10. For the empty text \<open>tokenizar\<close> returns the empty list and raises nothing,
  under each combination of the two options.
\<close>

theorem texto_vacio: "tokenizar cn tol [] = Some (Inr [])"
proof -
  have "finditer [] = Some []" by code_simp
  then show ?thesis
    by (simp add: tokenizar_def inicial_def cierre_def)
qed

end
